theory Spec2Isabelle
  imports Complex_Main "HOL-Library.AList"
begin

section \<open>Conventions\<close>

text \<open>
  The notebooks compute on float32 and float64 tensors. A vector is a list, a matrix a
  list of rows. The output of the trained model is a list of real numbers (the values of
  its float32 entries). Floating-point operations on such values are not functions of
  real arithmetic: they round, overflow and give NaN. Where the code adds float32
  numbers that are whole, the rounding of float32 is written out (\<open>float32_round\<close>);
  the floating-point operations of the temperature rescaling are parameters
  (\<open>float_ops\<close>). Token ids are Python ints (\<open>int\<close>). Exceptions are values of
  \<open>py_error\<close>, a computation that can raise has a result of type \<open>py_error + 'a\<close>.
\<close>

datatype py_error = IndexError | KeyError | ValueError | InvalidArgumentError

section \<open>Tensor primitives\<close>

text \<open>
  \<^verbatim>\<open>tf.one_hot(indices, depth)\<close>: one row of length \<open>depth\<close> per index, with 1 in the
  column of the index and 0 elsewhere. An index outside \<open>0 .. depth - 1\<close> gives a row
  of zeros. The entries are float32; both values are exact in every number type used
  below.
\<close>

definition one_hot :: "int list \<Rightarrow> nat \<Rightarrow> 'a::{zero,one} list list" where
  "one_hot indices depth =
     map (\<lambda>t. map (\<lambda>j. if int j = t then 1 else 0) [0..<depth]) indices"

text \<open>
  Float32 numbers that are whole and not negative, as natural numbers. A float32 has a
  significand of 24 bits: below \<open>2 ^ 24\<close> every whole number is a float32, from
  \<open>2 ^ 24\<close> to \<open>2 ^ 25\<close> every second one, and so on. \<open>float32_ulp n\<close> is the
  distance of the float32 numbers around \<open>n\<close>, and \<open>float32_round\<close> rounds to the
  nearest float32, a tie to the one with the even significand (overflow to infinity,
  beyond \<open>2 ^ 128\<close>, is left out). The sum of two float32 numbers is their exact sum,
  rounded.
\<close>

function float32_ulp :: "nat \<Rightarrow> nat" where
  "float32_ulp n = (if n < 2 ^ 24 then 1 else 2 * float32_ulp (n div 2))"
  by pat_completeness auto
termination
  by (relation "measure id") auto

declare float32_ulp.simps [simp del]

definition float32_round :: "nat \<Rightarrow> nat" where
  "float32_round n =
     (let u = float32_ulp n; q = n div u; r = n mod u
      in if 2 * r < u then q * u
         else if u < 2 * r then (q + 1) * u
         else if even q then q * u else (q + 1) * u)"

definition float32_add :: "nat \<Rightarrow> nat \<Rightarrow> nat" where
  "float32_add a b = float32_round (a + b)"

text \<open>
  \<^verbatim>\<open>tf.reduce_sum(x, axis=0)\<close> for a float32 \<open>x\<close> of shape \<open>(n, depth)\<close> with whole
  entries: the rows are added up in float32, one at a time, starting from the zero
  vector, so that \<open>n = 0\<close> gives \<open>depth\<close> zeros. The library does not fix the order
  of the additions; as long as no partial sum exceeds \<open>2 ^ 24\<close> every order adds
  exactly.
\<close>

definition reduce_sum_axis0 :: "nat \<Rightarrow> nat list list \<Rightarrow> nat list" where
  "reduce_sum_axis0 depth rows = foldr (map2 float32_add) rows (replicate depth 0)"

section \<open>Bag of words (1_text_as_tensors.ipynb)\<close>

text \<open>
  \<^verbatim>\<open>
  def to_bow(text):
      return tf.reduce_sum(tf.one_hot(vectorizer(text),vocab_size),axis=0)
  \<close>
  The \<open>TextVectorization\<close> layer is a library object: it is a parameter here. The
  result is a float32 vector with whole entries.
\<close>

definition to_bow :: "('t \<Rightarrow> int list) \<Rightarrow> nat \<Rightarrow> 't \<Rightarrow> nat list" where
  "to_bow vectorizer vocab_size text =
     reduce_sum_axis0 vocab_size (one_hot (vectorizer text) vocab_size)"

text \<open>
  \<^verbatim>\<open>
  def call(self,inp):
      return tf.reduce_sum(tf.one_hot(inp,self.vocab_size),axis=1)
  \<close>
  \<open>inp\<close> has shape \<open>(batch, n)\<close>; \<open>one_hot\<close> works on every row of the batch, and the
  sum over axis 1 of the result is the sum over axis 0 of every batch element.
\<close>

definition BOWLayer_call :: "nat \<Rightarrow> int list list \<Rightarrow> nat list list" where
  "BOWLayer_call vocab_size inp =
     map (reduce_sum_axis0 vocab_size) (map (\<lambda>row. one_hot row vocab_size) inp)"

section \<open>Temperature rescaling (4_gen_text_with_rnns.ipynb, generate_soft)\<close>

text \<open>
  \<^verbatim>\<open>
  probs = tf.exp(tf.math.log(out)/temperature).numpy().astype(np.float64)
  probs = probs/np.sum(probs)
  \<close>
  The operations are those of the libraries, on float32 (\<open>'f\<close>) and float64 (\<open>'d\<close>)
  values, which include infinities and NaN: they are parameters. \<open>tf_log\<close> takes an
  entry of the model's output, \<open>tf_div\<close> divides by the Python float \<open>temperature\<close>.
\<close>

record ('f, 'd) float_ops =
  tf_log :: "real \<Rightarrow> 'f"
  tf_div :: "'f \<Rightarrow> real \<Rightarrow> 'f"
  tf_exp :: "'f \<Rightarrow> 'f"
  astype_float64 :: "'f \<Rightarrow> 'd"
  np_sum :: "'d list \<Rightarrow> 'd"
  np_divide :: "'d \<Rightarrow> 'd \<Rightarrow> 'd"

definition temperature_probs :: "('f, 'd) float_ops \<Rightarrow> real list \<Rightarrow> real \<Rightarrow> 'd list" where
  "temperature_probs ops out temperature =
     (let probs = map (\<lambda>p. astype_float64 ops (tf_exp ops (tf_div ops (tf_log ops p) temperature))) out
      in map (\<lambda>p. np_divide ops p (np_sum ops probs)) probs)"

text \<open>
  Exact real arithmetic in place of the floating-point operations, for concrete runs
  with positive entries and temperature 1.
\<close>

definition exact_ops :: "(real, real) float_ops" where
  "exact_ops = \<lparr>tf_log = ln, tf_div = (/), tf_exp = exp, astype_float64 = id,
                 np_sum = sum_list, np_divide = (/)\<rparr>"

section \<open>Character-level tokenizer and decoding (4_gen_text_with_rnns.ipynb)\<close>

text \<open>
  \<open>tokenizer.word_index\<close> is a Python dict from strings to ints: an association list
  with distinct keys, in insertion order. The \<open>Tokenizer\<close> is a library object;
  \<open>fit_on_texts\<close> numbers the characters it has seen \<open>1, 2, ..., n\<close>, which
  \<open>keras_word_index\<close> records. Characters are \<open>char\<close>s, strings are \<open>string\<close>s.
\<close>

type_synonym word_index = "(string \<times> int) list"

definition keras_word_index :: "word_index \<Rightarrow> bool" where
  "keras_word_index wi \<longleftrightarrow>
     distinct (map fst wi) \<and> map snd wi = map int [1..<Suc (length wi)]"

text \<open>
  \<^verbatim>\<open>
  eos_token = len(tokenizer.word_index)+1
  tokenizer.word_index['<eos>'] = eos_token
  vocab_size = eos_token + 1
  \<close>
\<close>

definition eos_token :: "word_index \<Rightarrow> int" where
  "eos_token wi = int (length wi) + 1"

definition word_index_eos :: "word_index \<Rightarrow> word_index" where
  "word_index_eos wi = AList.update ''<eos>'' (eos_token wi) wi"

definition vocab_size_of :: "word_index \<Rightarrow> nat" where
  "vocab_size_of wi = nat (eos_token wi + 1)"

text \<open>
  \<open>tokenizer.texts_to_sequences([text])[0]\<close> for \<open>Tokenizer(char_level=True, lower=False)\<close>
  without \<open>num_words\<close> and \<open>oov_token\<close>: every character of the text is looked up in
  \<open>word_index\<close>, and a character without an entry is skipped.
\<close>

definition texts_to_sequences :: "word_index \<Rightarrow> string \<Rightarrow> int list" where
  "texts_to_sequences wi txt =
     concat (map (\<lambda>c. case map_of wi [c] of None \<Rightarrow> [] | Some i \<Rightarrow> [i]) txt)"

text \<open>
  \<^verbatim>\<open>
  reverse_map = {val:key for key, val in tokenizer.word_index.items()}

  def decode(x):
      return ''.join([reverse_map.get(t,'') for t in x])
  \<close>
\<close>

definition reverse_map :: "word_index \<Rightarrow> (int \<times> string) list" where
  "reverse_map wi = fold (\<lambda>(key, val). AList.update val key) wi []"

definition decode :: "(int \<times> string) list \<Rightarrow> int list \<Rightarrow> string" where
  "decode rm x = concat (map (\<lambda>t. case map_of rm t of None \<Rightarrow> [] | Some s \<Rightarrow> s) x)"

section \<open>Text generation (4_gen_text_with_rnns.ipynb)\<close>

text \<open>
  \<open>tf.argmax\<close> and \<open>np.argmax\<close> return the index of the first largest entry; they
  raise on an empty vector (\<open>None\<close> here).
\<close>

fun argmax_from :: "'a::linorder \<Rightarrow> nat \<Rightarrow> nat \<Rightarrow> 'a list \<Rightarrow> nat" where
  "argmax_from best bi i [] = bi"
| "argmax_from best bi i (x # xs) =
     (if best < x then argmax_from x i (Suc i) xs else argmax_from best bi (Suc i) xs)"

definition argmax :: "'a::linorder list \<Rightarrow> nat option" where
  "argmax xs = (case xs of [] \<Rightarrow> None | x # r \<Rightarrow> Some (argmax_from x 0 1 r))"

text \<open>
  The trained model is a library object and a parameter: it maps the one-hot rows of a
  sequence to one output row per position (\<open>return_sequences=True\<close>; the batch
  dimension of size one added by \<open>expand_dims\<close> and removed by \<open>[0]\<close> is left out).
  \<^verbatim>\<open>out = model(tf.expand_dims(tf.one_hot(inp,vocab_size),0))[0][-1]\<close>
  Indexing with \<open>-1\<close> raises when there is no position.
\<close>

type_synonym model = "real list list \<Rightarrow> real list list"

definition last_output :: "model \<Rightarrow> nat \<Rightarrow> int list \<Rightarrow> py_error + real list" where
  "last_output model vocab_size inp =
     (let ys = model (one_hot inp vocab_size)
      in if ys = [] then Inl InvalidArgumentError else Inr (last ys))"

text \<open>
  Python lists are mutable objects, and \<open>chars = inp\<close> makes two names for one object.
  A frame holds the store of list objects (by address), the next free address, and the
  addresses that the local variables \<open>inp\<close> and \<open>chars\<close> are bound to. The field
  \<open>fed\<close> is an observer, never read by the code: it records, for each call of the model,
  the token sequence passed to it and the token chosen from its output.
\<close>

record frame =
  store :: "nat \<Rightarrow> int list"
  fresh :: nat
  inp_ref :: nat
  chars_ref :: nat
  fed :: "(int list \<times> int) list"

text \<open>\<open>xs.append(v)\<close> changes the object at the address of \<open>xs\<close>.\<close>

definition list_append :: "nat \<Rightarrow> int \<Rightarrow> frame \<Rightarrow> frame" where
  "list_append r v s = s\<lparr>store := (store s)(r := store s r @ [v])\<rparr>"

text \<open>\<open>xs + vs\<close> builds a new list object and leaves \<open>xs\<close> as it is.\<close>

definition list_concat :: "nat \<Rightarrow> int list \<Rightarrow> frame \<Rightarrow> nat \<times> frame" where
  "list_concat r vs s =
     (fresh s, s\<lparr>store := (store s)(fresh s := store s r @ vs), fresh := Suc (fresh s)\<rparr>)"

text \<open>
  The last two statements of the loop body, shared by both generators:
  \<^verbatim>\<open>
  chars.append(nc)
  inp = inp+[nc]
  \<close>
  The append changes the object bound to \<open>chars\<close>; the concatenation reads the object
  bound to \<open>inp\<close> after that, builds a new one and binds \<open>inp\<close> to it.
\<close>

definition advance :: "int \<Rightarrow> frame \<Rightarrow> frame" where
  "advance nc s =
     (let s2 = list_append (chars_ref s) nc s;
          (r, s3) = list_concat (inp_ref s2) [nc] s2
      in s3\<lparr>inp_ref := r\<rparr>)"

text \<open>
  \<^verbatim>\<open>
  inp = tokenizer.texts_to_sequences([start])[0]
  chars = inp
  \<close>
\<close>

definition init_frame :: "int list \<Rightarrow> frame" where
  "init_frame seed =
     \<lparr>store = (\<lambda>_. [])(0 := seed), fresh = 1, inp_ref = 0, chars_ref = 0, fed = []\<rparr>"

text \<open>
  \<^verbatim>\<open>
  def generate(model,size=100,start='Today '):
          inp = tokenizer.texts_to_sequences([start])[0]
          chars = inp
          for i in range(size):
              out = model(tf.expand_dims(tf.one_hot(inp,vocab_size),0))[0][-1]
              nc = tf.argmax(out)
              if nc==eos_token:
                  break
              chars.append(nc.numpy())
              inp = inp+[nc]
          return decode(chars)
  \<close>
  The globals \<open>vocab_size\<close>, \<open>eos_token\<close>, \<open>tokenizer.word_index\<close> and
  \<open>reverse_map\<close> are parameters. The parameter \<open>size\<close> is written \<open>sz\<close>; the numeric argument
  of the loop counts the iterations of \<open>range(size)\<close> that are left.
\<close>

fun generate_loop :: "model \<Rightarrow> nat \<Rightarrow> int \<Rightarrow> nat \<Rightarrow> frame \<Rightarrow> py_error + frame" where
  "generate_loop model vocab_size eos 0 s = Inr s"
| "generate_loop model vocab_size eos (Suc n) s =
     (case last_output model vocab_size (store s (inp_ref s)) of
        Inl e \<Rightarrow> Inl e
      | Inr out \<Rightarrow>
          (case argmax out of
             None \<Rightarrow> Inl InvalidArgumentError
           | Some nc \<Rightarrow>
               let s1 = s\<lparr>fed := fed s @ [(store s (inp_ref s), int nc)]\<rparr>
               in if int nc = eos then Inr s1
                  else generate_loop model vocab_size eos n (advance (int nc) s1)))"

definition generate_run ::
  "model \<Rightarrow> nat \<Rightarrow> int \<Rightarrow> word_index \<Rightarrow> nat \<Rightarrow> string \<Rightarrow> py_error + frame" where
  "generate_run model vocab_size eos wi sz start =
     generate_loop model vocab_size eos sz (init_frame (texts_to_sequences wi start))"

definition generate ::
  "model \<Rightarrow> nat \<Rightarrow> int \<Rightarrow> word_index \<Rightarrow> (int \<times> string) list \<Rightarrow> nat \<Rightarrow> string
   \<Rightarrow> py_error + string" where
  "generate model vocab_size eos wi rm sz start =
     (case generate_run model vocab_size eos wi sz start of
        Inl e \<Rightarrow> Inl e
      | Inr s \<Rightarrow> Inr (decode rm (store s (chars_ref s))))"

text \<open>
  \<^verbatim>\<open>
  def generate_soft(model,size=100,start='Today ',temperature=1.0):
          inp = tokenizer.texts_to_sequences([start])[0]
          chars = inp
          for i in range(size):
              out = model(tf.expand_dims(tf.one_hot(inp,vocab_size),0))[0][-1]
              probs = tf.exp(tf.math.log(out)/temperature).numpy().astype(np.float64)
              probs = probs/np.sum(probs)
              nc = np.argmax(np.random.multinomial(1,probs,1))
              if nc==eos_token:
                  break
              chars.append(nc)
              inp = inp+[nc]
          return decode(chars)
  \<close>
  \<open>np.random.multinomial(1,probs,1)\<close> reads the state of NumPy's global generator and
  advances it, and raises \<open>ValueError\<close> for probabilities it does not accept (an entry
  that is negative, above 1 or NaN, or a sum above 1). The sampler is a library function
  and a parameter: from a generator state \<open>g\<close> and the probabilities it gives the
  exception, or the row of counts of one trial and the next generator state.
\<close>

type_synonym ('g, 'd) sampler = "'g \<Rightarrow> 'd list \<Rightarrow> py_error + nat list \<times> 'g"

fun generate_soft_loop ::
  "('f, 'd) float_ops \<Rightarrow> model \<Rightarrow> nat \<Rightarrow> int \<Rightarrow> ('g, 'd) sampler \<Rightarrow> real \<Rightarrow> nat \<Rightarrow> frame \<times> 'g
   \<Rightarrow> py_error + frame \<times> 'g" where
  "generate_soft_loop ops model vocab_size eos multinomial temperature 0 (s, g) = Inr (s, g)"
| "generate_soft_loop ops model vocab_size eos multinomial temperature (Suc n) (s, g) =
     (case last_output model vocab_size (store s (inp_ref s)) of
        Inl e \<Rightarrow> Inl e
      | Inr out \<Rightarrow>
          let probs = temperature_probs ops out temperature
          in (case multinomial g probs of
             Inl e \<Rightarrow> Inl e
           | Inr (counts, g') \<Rightarrow>
               (case argmax counts of
                  None \<Rightarrow> Inl ValueError
                | Some nc \<Rightarrow>
                    let s1 = s\<lparr>fed := fed s @ [(store s (inp_ref s), int nc)]\<rparr>
                    in if int nc = eos then Inr (s1, g')
                       else generate_soft_loop ops model vocab_size eos multinomial temperature n
                              (advance (int nc) s1, g'))))"

definition generate_soft_run ::
  "('f, 'd) float_ops \<Rightarrow> model \<Rightarrow> nat \<Rightarrow> int \<Rightarrow> word_index \<Rightarrow> ('g, 'd) sampler \<Rightarrow> nat \<Rightarrow> string
   \<Rightarrow> real \<Rightarrow> 'g \<Rightarrow> py_error + frame \<times> 'g" where
  "generate_soft_run ops model vocab_size eos wi multinomial sz start temperature g =
     generate_soft_loop ops model vocab_size eos multinomial temperature sz
       (init_frame (texts_to_sequences wi start), g)"

definition generate_soft ::
  "('f, 'd) float_ops \<Rightarrow> model \<Rightarrow> nat \<Rightarrow> int \<Rightarrow> word_index \<Rightarrow> (int \<times> string) list
   \<Rightarrow> ('g, 'd) sampler \<Rightarrow> nat \<Rightarrow> string \<Rightarrow> real \<Rightarrow> 'g \<Rightarrow> py_error + string \<times> 'g" where
  "generate_soft ops model vocab_size eos wi rm multinomial sz start temperature g =
     (case generate_soft_run ops model vocab_size eos wi multinomial sz start temperature g of
        Inl e \<Rightarrow> Inl e
      | Inr (s, g') \<Rightarrow> Inr (decode rm (store s (chars_ref s)), g'))"

text \<open>
  A sampler for concrete runs: the generator state is the list of the uniform variates
  in \<open>[0, 1)\<close> still to come. It raises for an entry outside \<open>[0, 1]\<close> and for a sum
  of all entries but the last above 1; else one trial takes the first category whose
  cumulated probability exceeds the next variate (the last category when none does).
\<close>

fun pick_category :: "real \<Rightarrow> real list \<Rightarrow> nat list" where
  "pick_category u [] = []"
| "pick_category u [p] = [1]"
| "pick_category u (p # ps) = (if u < p then 1 # map (\<lambda>_. 0) ps else 0 # pick_category (u - p) ps)"

definition inversion_sampler :: "(real list, real) sampler" where
  "inversion_sampler g probs =
     (if (\<exists>p\<in>set probs. p < 0 \<or> 1 < p) \<or> 1 < sum_list (butlast probs) then Inl ValueError
      else case g of [] \<Rightarrow> Inr (pick_category 0 probs, [])
                   | u # g' \<Rightarrow> Inr (pick_category u probs, g'))"

text \<open>
  Both loops have one shape: choose the next token from the sequence bound to \<open>inp\<close>
  (by the model and \<open>argmax\<close>, or by the model and the sampler, which also moves the
  generator state \<open>a\<close>), stop on the end-of-sequence token, else append and go on.
  \<open>token_loop\<close> is this shape, used to reason about both loops at once.
\<close>

fun token_loop ::
  "('a \<Rightarrow> int list \<Rightarrow> py_error + int \<times> 'a) \<Rightarrow> int \<Rightarrow> nat \<Rightarrow> frame \<times> 'a \<Rightarrow> py_error + frame \<times> 'a" where
  "token_loop pick eos 0 (s, a) = Inr (s, a)"
| "token_loop pick eos (Suc n) (s, a) =
     (case pick a (store s (inp_ref s)) of
        Inl e \<Rightarrow> Inl e
      | Inr (nc, a') \<Rightarrow>
          let s1 = s\<lparr>fed := fed s @ [(store s (inp_ref s), nc)]\<rparr>
          in if nc = eos then Inr (s1, a')
             else token_loop pick eos n (advance nc s1, a'))"

definition greedy_pick :: "model \<Rightarrow> nat \<Rightarrow> unit \<Rightarrow> int list \<Rightarrow> py_error + int \<times> unit" where
  "greedy_pick model vocab_size a x =
     (case last_output model vocab_size x of
        Inl e \<Rightarrow> Inl e
      | Inr out \<Rightarrow> (case argmax out of None \<Rightarrow> Inl InvalidArgumentError
                                      | Some nc \<Rightarrow> Inr (int nc, a)))"

definition soft_pick ::
  "('f, 'd) float_ops \<Rightarrow> model \<Rightarrow> nat \<Rightarrow> ('g, 'd) sampler \<Rightarrow> real \<Rightarrow> 'g \<Rightarrow> int list
   \<Rightarrow> py_error + int \<times> 'g" where
  "soft_pick ops model vocab_size multinomial temperature g x =
     (case last_output model vocab_size x of
        Inl e \<Rightarrow> Inl e
      | Inr out \<Rightarrow>
          (case multinomial g (temperature_probs ops out temperature) of
             Inl e \<Rightarrow> Inl e
           | Inr (counts, g') \<Rightarrow>
               (case argmax counts of
                  None \<Rightarrow> Inl ValueError
                | Some nc \<Rightarrow> Inr (int nc, g'))))"

text \<open>
  The sequences passed to the model, as the loop would pass them if \<open>inp\<close> grew by
  one chosen token per step from a start \<open>xs\<close>.
\<close>

fun fed_from :: "int list \<Rightarrow> int list \<Rightarrow> (int list \<times> int) list" where
  "fed_from xs [] = []"
| "fed_from xs (t # ts) = (xs, t) # fed_from (xs @ [t]) ts"

text \<open>
  \<open>replay pick a xs a'\<close>: the recorded calls \<open>xs\<close> are what choosing token after token
  gives, from the generator state \<open>a\<close> to the generator state \<open>a'\<close>.
\<close>

fun replay ::
  "('a \<Rightarrow> int list \<Rightarrow> py_error + int \<times> 'a) \<Rightarrow> 'a \<Rightarrow> (int list \<times> int) list \<Rightarrow> 'a \<Rightarrow> bool" where
  "replay pick a [] a' \<longleftrightarrow> a = a'"
| "replay pick a ((x, t) # rest) a' \<longleftrightarrow>
     (case pick a x of Inl e \<Rightarrow> False | Inr (t', a1) \<Rightarrow> t' = t \<and> replay pick a1 rest a')"

text \<open>
  A model for concrete runs over the vocabulary \<open>a = 1\<close>, \<open>b = 2\<close>, \<open><eos> = 3\<close>:
  at every position it prefers \<open>b\<close> while the sequence has fewer than four tokens and
  \<open><eos>\<close> after that.
\<close>

definition demo_model :: model where
  "demo_model rows =
     map (\<lambda>_. if length rows < 4 then [1/8, 1/4, 1/2, 1/8] else [1/8, 1/8, 1/4, 1/2]) rows"

definition demo_index :: word_index where
  "demo_index = [(''a'', 1), (''b'', 2)]"

section \<open>Pretrained embedding matrix (word-embedding notebook)\<close>





section \<open>Properties of the tensor code\<close>

lemma float32_ulp_small: "n < 2 ^ 24 \<Longrightarrow> float32_ulp n = 1"
  by (subst float32_ulp.simps) simp

lemma float32_round_exact: "n \<le> 2 ^ 24 \<Longrightarrow> float32_round n = n"
proof (cases "n < 2 ^ 24")
  case True
  then show ?thesis by (simp add: float32_round_def float32_ulp_small)
next
  case False
  assume "n \<le> 2 ^ 24"
  with False have n: "n = 2 ^ 24" by simp
  have "float32_ulp (2 ^ 24) = 2"
    by (subst float32_ulp.simps) (simp add: float32_ulp_small)
  then show ?thesis
    by (simp add: float32_round_def n)
qed

lemma float32_round_tie: "float32_round (2 ^ 24 + 1) = 2 ^ 24"
proof -
  have "float32_ulp (2 ^ 24 + 1) = 2"
    by (subst float32_ulp.simps) (simp add: float32_ulp_small)
  then show ?thesis
    by (simp add: float32_round_def)
qed

lemma length_one_hot_row:
  "r \<in> set (one_hot ids depth) \<Longrightarrow> length r = depth"
  by (auto simp: one_hot_def)

lemma length_reduce_sum_axis0:
  "(\<And>r. r \<in> set rows \<Longrightarrow> length r = depth) \<Longrightarrow> length (reduce_sum_axis0 depth rows) = depth"
  by (induction rows) (simp_all add: reduce_sum_axis0_def)

lemma nth_reduce_sum_axis0:
  "(\<And>r. r \<in> set rows \<Longrightarrow> length r = depth) \<Longrightarrow> j < depth \<Longrightarrow>
   reduce_sum_axis0 depth rows ! j = foldr float32_add (map (\<lambda>r. r ! j) rows) 0"
proof (induction rows)
  case Nil
  then show ?case by (simp add: reduce_sum_axis0_def)
next
  case (Cons r rows)
  have len: "length (reduce_sum_axis0 depth rows) = depth"
    using Cons.prems(1) by (intro length_reduce_sum_axis0) simp
  have "reduce_sum_axis0 depth (r # rows) = map2 float32_add r (reduce_sum_axis0 depth rows)"
    by (simp add: reduce_sum_axis0_def)
  moreover have "length r = depth"
    using Cons.prems(1) by simp
  ultimately show ?case
    using Cons len by simp
qed

lemma one_hot_column:
  "j < depth \<Longrightarrow>
   map (\<lambda>r. r ! j) (one_hot ids depth) = map (\<lambda>t. if t = int j then 1 else 0) ids"
  by (auto simp: one_hot_def)

text \<open>
  Adding the entries of a column one at a time stops at \<open>2 ^ 24\<close>: the next whole
  number is no float32, and the tie goes back to \<open>2 ^ 24\<close>.
\<close>

lemma column_sum_saturates:
  "foldr float32_add (map (\<lambda>t. if t = x then 1 else 0) ids) 0 = min (count_list ids x) (2 ^ 24)"
proof (induction ids)
  case Nil
  show ?case by simp
next
  case (Cons t ids)
  let ?acc = "min (count_list ids x) (2 ^ 24)"
  show ?case
  proof (cases "t = x")
    case False
    have "float32_round ?acc = ?acc"
      by (rule float32_round_exact) simp
    then show ?thesis
      using False Cons.IH by (simp add: float32_add_def)
  next
    case True
    show ?thesis
    proof (cases "count_list ids x < 2 ^ 24")
      case less: True
      then have "float32_round (1 + count_list ids x) = 1 + count_list ids x"
        by (intro float32_round_exact) simp
      then show ?thesis
        using True less Cons.IH by (simp add: float32_add_def min_def)
    next
      case ge: False
      then have acc: "?acc = 2 ^ 24" by (simp add: min_def)
      have "float32_round (1 + ?acc) = 2 ^ 24"
        unfolding acc using float32_round_tie by (simp only: add.commute)
      then show ?thesis
        using True ge Cons.IH by (simp add: float32_add_def min_def)
    qed
  qed
qed

lemma bow_length: "length (reduce_sum_axis0 depth (one_hot ids depth)) = depth"
  by (intro length_reduce_sum_axis0 length_one_hot_row)

lemma bow_nth:
  "j < depth \<Longrightarrow>
   reduce_sum_axis0 depth (one_hot ids depth) ! j = min (count_list ids (int j)) (2 ^ 24)"
proof -
  assume j: "j < depth"
  have "reduce_sum_axis0 depth (one_hot ids depth) ! j
        = foldr float32_add (map (\<lambda>r. r ! j) (one_hot ids depth)) 0"
    using j by (intro nth_reduce_sum_axis0 length_one_hot_row)
  then show ?thesis
    using j by (simp only: one_hot_column column_sum_saturates)
qed

lemma count_list_replicate: "count_list (replicate n x) x = n"
  by (induction n) simp_all

text \<open>
  C5 (as amended). The bag-of-words vector counts tokens as far as float32 can count:
  \<open>to_bow\<close> returns a vector of length \<open>vocab_size\<close>, and its component \<open>j\<close> is the
  number of occurrences of the id \<open>j\<close> in the vectorized text whenever that number is
  at most \<open>2 ^ 24\<close>, whatever other ids the text has; \<open>BOWLayer.call\<close> does the same for
  every row of its batch.
\<close>

theorem bag_of_words_counts:
  "length (to_bow vectorizer vocab_size text) = vocab_size
   \<and> (\<forall>j<vocab_size. count_list (vectorizer text) (int j) \<le> 2 ^ 24 \<longrightarrow>
         to_bow vectorizer vocab_size text ! j = count_list (vectorizer text) (int j))
   \<and> length (BOWLayer_call vocab_size batch) = length batch
   \<and> (\<forall>i<length batch.
        length (BOWLayer_call vocab_size batch ! i) = vocab_size
        \<and> (\<forall>j<vocab_size. count_list (batch ! i) (int j) \<le> 2 ^ 24 \<longrightarrow>
              BOWLayer_call vocab_size batch ! i ! j = count_list (batch ! i) (int j)))"
  by (simp add: to_bow_def BOWLayer_call_def bow_length bow_nth)

theorem bag_of_words_counts_witness:
  "to_bow (\<lambda>u::unit. [1, 3, 1, 7, -2]) 4 () = [0, 2, 0, 1]
   \<and> BOWLayer_call 3 [[0, 2, 2], [5, 1, 0]] = [[1, 0, 2], [1, 1, 0]]
   \<and> count_list [1, 3, 1, 7, -2] (int 1) \<le> 2 ^ 24
   \<and> to_bow (\<lambda>u::unit. [1, 3, 1, 7, -2]) 4 () ! 1 = count_list [1, 3, 1, 7, -2] (int 1)
   \<and> BOWLayer_call 3 [[0, 2, 2], [5, 1, 0]] ! 0 ! 2 = count_list ([[0, 2, 2], [5, 1, 0]] ! 0) (int 2)"
proof -
  have ex: "float32_add a b = a + b" if "a + b \<le> 4" for a b
    using that by (simp add: float32_add_def float32_round_exact)
  have a: "to_bow (\<lambda>u::unit. [1, 3, 1, 7, -2]) 4 () = [0, 2, 0, 1]"
    by (simp add: to_bow_def reduce_sum_axis0_def one_hot_def upt_rec eval_nat_numeral ex)
  have b: "BOWLayer_call 3 [[0, 2, 2], [5, 1, 0]] = [[1, 0, 2], [1, 1, 0]]"
    by (simp add: BOWLayer_call_def reduce_sum_axis0_def one_hot_def upt_rec eval_nat_numeral ex)
  have h: "count_list [1, 3, 1, 7, -2] (int 1) \<le> 2 ^ 24"
    by simp
  have "\<forall>j<4. count_list [1, 3, 1, 7, -2] (int j) \<le> 2 ^ 24 \<longrightarrow>
          to_bow (\<lambda>u::unit. [1, 3, 1, 7, -2]) 4 () ! j = count_list [1, 3, 1, 7, -2] (int j)"
    using bag_of_words_counts [of "\<lambda>u::unit. [1, 3, 1, 7, -2]" 4 "()" "[]"] by blast
  then have c: "to_bow (\<lambda>u::unit. [1, 3, 1, 7, -2]) 4 () ! 1 = count_list [1, 3, 1, 7, -2] (int 1)"
    using h by simp
  have "\<forall>i<length [[0, 2, 2], [5, 1, 0 :: int]]. \<forall>j<3.
        count_list ([[0, 2, 2], [5, 1, 0]] ! i) (int j) \<le> 2 ^ 24 \<longrightarrow>
        BOWLayer_call 3 [[0, 2, 2], [5, 1, 0]] ! i ! j
        = count_list ([[0, 2, 2], [5, 1, 0]] ! i) (int j)"
    using bag_of_words_counts [of "\<lambda>u::unit. []" 3 "()" "[[0, 2, 2], [5, 1, 0]]"] by blast
  then have d: "BOWLayer_call 3 [[0, 2, 2], [5, 1, 0]] ! 0 ! 2
       = count_list ([[0, 2, 2], [5, 1, 0]] ! 0) (int 2)"
    by simp
  show ?thesis
    by (intro conjI a b h c d)
qed

text \<open>
  C5 (as stated) fails: a text in which the id 0 occurs \<open>2 ^ 24 + 1 = 16777217\<close> times
  has the component 16777216, in \<open>to_bow\<close> and in \<open>BOWLayer.call\<close>.
\<close>

theorem bag_of_words_float32_counterexample:
  "count_list (replicate 16777217 (0::int)) (int 0) = 16777217
   \<and> to_bow (\<lambda>u::unit. replicate 16777217 0) 1 () = [16777216]
   \<and> BOWLayer_call 1 [replicate 16777217 0] = [[16777216]]"
proof -
  have c: "count_list (replicate 16777217 (0::int)) (int 0) = 16777217"
    by (simp add: count_list_replicate)
  have one: "xs = [xs ! 0]" if "length xs = 1" for xs :: "nat list"
    using that by (cases xs) simp_all
  have n: "reduce_sum_axis0 1 (one_hot (replicate 16777217 0) 1) ! 0 = 16777216"
    using bow_nth [of 0 1 "replicate 16777217 0"] by (simp add: count_list_replicate)
  have r: "reduce_sum_axis0 1 (one_hot (replicate 16777217 0) 1) = [16777216]"
    using one [OF bow_length [of 1 "replicate 16777217 0"]] n by simp
  show ?thesis
    using c r by (simp add: to_bow_def BOWLayer_call_def)
qed

section \<open>Decoding\<close>

lemma decode_append: "decode rm (x @ y) = decode rm x @ decode rm y"
  by (simp add: decode_def)

lemma decode_filter:
  "decode rm x = decode rm (filter (\<lambda>t. map_of rm t \<noteq> None) x)"
  by (induction x) (auto simp: decode_def)

lemma fold_update_keys:
  "fst ` set (fold (\<lambda>(key, val). AList.update val key) wi acc) = fst ` set acc \<union> snd ` set wi"
proof (induction wi arbitrary: acc)
  case Nil
  show ?case by simp
next
  case (Cons kv wi)
  obtain k v where kv: "kv = (k, v)" by (cases kv)
  show ?case
    by (simp add: kv Cons.IH dom_update)
qed

lemma reverse_map_keys: "fst ` set (reverse_map wi) = snd ` set wi"
  by (simp add: reverse_map_def fold_update_keys)

lemma reverse_map_None: "map_of (reverse_map wi) t = None \<longleftrightarrow> t \<notin> snd ` set wi"
  by (simp add: map_of_eq_None_iff reverse_map_keys)

lemma keras_values:
  assumes "keras_word_index wi" and "v \<in> snd ` set wi"
  shows "1 \<le> v \<and> v \<le> int (length wi)"
proof -
  have "v \<in> set (map snd wi)"
    using assms(2) by simp
  then have "v \<in> set (map int [1..<Suc (length wi)])"
    using assms(1) by (simp only: keras_word_index_def)
  then show ?thesis
    by (auto simp del: upt_Suc)
qed

lemma update_values:
  "snd ` set (AList.update k v al) \<subseteq> insert v (snd ` set al)"
  by (induction al) auto

lemma word_index_eos_values:
  "v \<in> snd ` set (word_index_eos wi) \<Longrightarrow> v = eos_token wi \<or> v \<in> snd ` set wi"
  using update_values [of "''<eos>''" "eos_token wi" wi]
  by (auto simp: word_index_eos_def)

lemma padding_not_in_reverse_map:
  assumes "keras_word_index wi"
  shows "map_of (reverse_map (word_index_eos wi)) 0 = None"
proof -
  have "0 \<notin> snd ` set (word_index_eos wi)"
  proof
    assume "0 \<in> snd ` set (word_index_eos wi)"
    then have "0 = eos_token wi \<or> 0 \<in> snd ` set wi"
      by (rule word_index_eos_values)
    then show False
      using keras_values [OF assms, of 0] by (auto simp: eos_token_def)
  qed
  then show ?thesis
    by (simp only: reverse_map_None not_False_eq_True)
qed

text \<open>
  C10. \<open>decode\<close> returns a string for every list of token ids: an id without an
  entry in \<open>reverse_map\<close> gives the empty string, so such ids are dropped, and the
  result is the concatenation of the entries of the ids that have one. The padding id 0
  has no entry in the \<open>reverse_map\<close> of the notebook.
\<close>

theorem decode_total:
  "decode rm x = decode rm (filter (\<lambda>t. map_of rm t \<noteq> None) x)
   \<and> decode rm x = concat (map (\<lambda>t. the (map_of rm t)) (filter (\<lambda>t. map_of rm t \<noteq> None) x))
   \<and> (map_of rm t = None \<longrightarrow> decode rm [t] = [])
   \<and> (keras_word_index wi \<longrightarrow>
        map_of (reverse_map (word_index_eos wi)) 0 = None
        \<and> decode (reverse_map (word_index_eos wi)) [0] = [])"
proof -
  have "decode rm x = concat (map (\<lambda>t. the (map_of rm t)) (filter (\<lambda>t. map_of rm t \<noteq> None) x))"
    by (induction x) (auto simp: decode_def)
  then show ?thesis
    using decode_filter [of rm x] padding_not_in_reverse_map [of wi]
    by (auto simp: decode_def)
qed


theorem decode_total_witness:
  "keras_word_index [(''a'', 1), (''b'', 2)]
   \<and> map_of (reverse_map (word_index_eos [(''a'', 1), (''b'', 2)])) 7 = None
   \<and> decode (reverse_map (word_index_eos [(''a'', 1), (''b'', 2)])) [1, 0, 7, 2, -4, 3] = ''ab<eos>''
   \<and> decode (reverse_map (word_index_eos [(''a'', 1), (''b'', 2)])) [0] = []
   \<and> decode (reverse_map (word_index_eos [(''a'', 1), (''b'', 2)])) [7] = []"
proof -
  have k: "keras_word_index [(''a'', 1), (''b'', 2)]"
    by (simp add: keras_word_index_def upt_rec)
  have rm: "reverse_map (word_index_eos [(''a'', 1), (''b'', 2)]) = [(1, ''a''), (2, ''b''), (3, ''<eos>'')]"
    by (simp add: reverse_map_def word_index_eos_def eos_token_def)
  have n: "map_of (reverse_map (word_index_eos [(''a'', 1), (''b'', 2)])) 7 = None"
    by (simp add: rm)
  have d: "decode (reverse_map (word_index_eos [(''a'', 1), (''b'', 2)])) [1, 0, 7, 2, -4, 3] = ''ab<eos>''"
    by (simp add: rm decode_def)
  show ?thesis
    using k n d
      decode_total [of "reverse_map (word_index_eos [(''a'', 1), (''b'', 2)])" "[]" 7 "[(''a'', 1), (''b'', 2)]"]
    by blast
qed

section \<open>The embedding-matrix loop\<close>








section \<open>The generation loops\<close>

lemma generate_loop_token_loop:
  "generate_loop model vocab_size eos n s
   = map_sum id fst (token_loop (greedy_pick model vocab_size) eos n (s, ()))"
  by (induction n arbitrary: s)
     (simp_all add: greedy_pick_def Let_def split: sum.splits option.splits prod.splits)

lemma generate_soft_loop_token_loop:
  "generate_soft_loop ops model vocab_size eos multinomial temperature n (s, g)
   = token_loop (soft_pick ops model vocab_size multinomial temperature) eos n (s, g)"
  by (induction n arbitrary: s g)
     (simp_all add: soft_pick_def Let_def split: sum.splits option.splits prod.splits)

lemma fed_from_append:
  "fed_from xs (ts @ us) = fed_from xs ts @ fed_from (xs @ ts) us"
  by (induction ts arbitrary: xs) simp_all

lemma length_fed_from [simp]: "length (fed_from xs ts) = length ts"
  by (induction ts arbitrary: xs) simp_all

lemma nth_fed_from:
  "k < length ts \<Longrightarrow> fed_from xs ts ! k = (xs @ take k ts, ts ! k)"
proof (induction ts arbitrary: xs k)
  case Nil
  then show ?case by simp
next
  case (Cons t ts)
  then show ?case by (cases k) simp_all
qed

lemma advance_fields [simp]:
  "chars_ref (advance nc s) = chars_ref s"
  "inp_ref (advance nc s) = fresh s"
  "fresh (advance nc s) = Suc (fresh s)"
  "fed (advance nc s) = fed s"
  by (simp_all add: advance_def list_append_def list_concat_def)

lemma advance_store_inp:
  "store (advance nc s) (fresh s)
   = (if inp_ref s = chars_ref s then store s (inp_ref s) @ [nc] else store s (inp_ref s)) @ [nc]"
  by (simp add: advance_def list_append_def list_concat_def)

lemma advance_store_chars:
  "chars_ref s < fresh s \<Longrightarrow> store (advance nc s) (chars_ref s) = store s (chars_ref s) @ [nc]"
  by (simp add: advance_def list_append_def list_concat_def)

lemma token_loop_unaliased:
  assumes "token_loop pick eos n (s, a) = Inr (s', a')"
    and "inp_ref s \<noteq> chars_ref s" and "chars_ref s < fresh s"
  shows "\<exists>gs ends.
     store s' (chars_ref s') = store s (chars_ref s) @ gs
     \<and> eos \<notin> set gs \<and> (ends = [] \<or> ends = [eos])
     \<and> length gs + length ends \<le> n \<and> (length gs < n \<longrightarrow> ends = [eos])
     \<and> fed s' = fed s @ fed_from (store s (inp_ref s)) (gs @ ends)"
  using assms
proof (induction n arbitrary: s a)
  case 0
  then show ?case by simp
next
  case (Suc n)
  from Suc.prems(1) obtain nc a1 where p: "pick a (store s (inp_ref s)) = Inr (nc, a1)"
    by (auto split: sum.splits)
  define s1 where "s1 = s\<lparr>fed := fed s @ [(store s (inp_ref s), nc)]\<rparr>"
  show ?case
  proof (cases "nc = eos")
    case True
    then have "s' = s1"
      using Suc.prems(1) p by (simp add: s1_def)
    then have "store s' (chars_ref s') = store s (chars_ref s) @ []
      \<and> eos \<notin> set [] \<and> ([eos] = [] \<or> [eos] = [eos])
      \<and> length ([]::int list) + length [eos] \<le> Suc n \<and> (length ([]::int list) < Suc n \<longrightarrow> [eos] = [eos])
      \<and> fed s' = fed s @ fed_from (store s (inp_ref s)) ([] @ [eos])"
      using True by (simp add: s1_def)
    then show ?thesis by blast
  next
    case False
    define t where "t = advance nc s1"
    have run: "token_loop pick eos n (t, a1) = Inr (s', a')"
      using Suc.prems(1) p False by (simp add: t_def s1_def)
    have t1: "inp_ref t \<noteq> chars_ref t" "chars_ref t < fresh t"
      using Suc.prems(2,3) by (simp_all add: t_def s1_def)
    have t2: "store t (chars_ref t) = store s (chars_ref s) @ [nc]"
       "store t (inp_ref t) = store s (inp_ref s) @ [nc]"
       "fed t = fed s @ [(store s (inp_ref s), nc)]"
      using Suc.prems(2,3) advance_store_inp [of nc s1] advance_store_chars [of s1 nc]
      by (simp_all add: t_def s1_def)
    obtain gs ends where r:
      "store s' (chars_ref s') = store t (chars_ref t) @ gs"
      "eos \<notin> set gs" "ends = [] \<or> ends = [eos]"
      "length gs + length ends \<le> n" "length gs < n \<longrightarrow> ends = [eos]"
      "fed s' = fed t @ fed_from (store t (inp_ref t)) (gs @ ends)"
      using Suc.IH [OF run t1] by blast
    have "store s' (chars_ref s') = store s (chars_ref s) @ (nc # gs)
      \<and> eos \<notin> set (nc # gs) \<and> (ends = [] \<or> ends = [eos])
      \<and> length (nc # gs) + length ends \<le> Suc n \<and> (length (nc # gs) < Suc n \<longrightarrow> ends = [eos])
      \<and> fed s' = fed s @ fed_from (store s (inp_ref s)) ((nc # gs) @ ends)"
      using r t2 False by simp
    then show ?thesis by blast
  qed
qed

lemma map_snd_fed_from [simp]: "map snd (fed_from xs ts) = ts"
  by (induction ts arbitrary: xs) simp_all

lemma token_loop_init:
  assumes "token_loop pick eos n (init_frame seed, a) = Inr (s', a')"
  shows "\<exists>gs ends.
     store s' (chars_ref s') = seed @ gs
     \<and> eos \<notin> set gs \<and> (ends = [] \<or> ends = [eos])
     \<and> length gs + length ends \<le> n \<and> (length gs < n \<longrightarrow> ends = [eos])
     \<and> map snd (fed s') = gs @ ends
     \<and> (\<forall>k<length (fed s'). fst (fed s' ! k)
            = (if k = 0 then seed else seed @ [gs ! 0] @ take k gs))"
proof (cases n)
  case 0
  then have "s' = init_frame seed" using assms by simp
  then have "store s' (chars_ref s') = seed @ []
     \<and> eos \<notin> set [] \<and> ([] = [] \<or> [] = [eos])
     \<and> length ([]::int list) + length ([]::int list) \<le> n \<and> (length ([]::int list) < n \<longrightarrow> [] = [eos])
     \<and> map snd (fed s') = [] @ []
     \<and> (\<forall>k<length (fed s'). fst (fed s' ! k)
            = (if k = 0 then seed else seed @ [[] ! 0] @ take k []))"
    using 0 by (simp add: init_frame_def)
  then show ?thesis by blast
next
  case (Suc m)
  from assms Suc obtain nc a1 where p: "pick a seed = Inr (nc, a1)"
    by (auto simp: init_frame_def split: sum.splits)
  define s1 where "s1 = (init_frame seed)\<lparr>fed := [(seed, nc)]\<rparr>"
  show ?thesis
  proof (cases "nc = eos")
    case True
    then have "s' = s1"
      using assms Suc p by (simp add: init_frame_def s1_def)
    then have "store s' (chars_ref s') = seed @ []
     \<and> eos \<notin> set [] \<and> ([eos] = [] \<or> [eos] = [eos])
     \<and> length ([]::int list) + length [eos] \<le> n \<and> (length ([]::int list) < n \<longrightarrow> [eos] = [eos])
     \<and> map snd (fed s') = [] @ [eos]
     \<and> (\<forall>k<length (fed s'). fst (fed s' ! k)
            = (if k = 0 then seed else seed @ [[] ! 0] @ take k []))"
      using True Suc by (simp add: init_frame_def s1_def)
    then show ?thesis by blast
  next
    case False
    define t where "t = advance nc s1"
    have run: "token_loop pick eos m (t, a1) = Inr (s', a')"
      using assms Suc p False by (simp add: t_def s1_def init_frame_def)
    have t1: "inp_ref t \<noteq> chars_ref t" "chars_ref t < fresh t"
      by (simp_all add: t_def s1_def init_frame_def)
    have t2: "store t (chars_ref t) = seed @ [nc]"
       "store t (inp_ref t) = seed @ [nc, nc]"
       "fed t = [(seed, nc)]"
      using advance_store_inp [of nc s1] advance_store_chars [of s1 nc]
      by (simp_all add: t_def s1_def init_frame_def)
    obtain gs ends where r:
      "store s' (chars_ref s') = store t (chars_ref t) @ gs"
      "eos \<notin> set gs" "ends = [] \<or> ends = [eos]"
      "length gs + length ends \<le> m" "length gs < m \<longrightarrow> ends = [eos]"
      "fed s' = fed t @ fed_from (store t (inp_ref t)) (gs @ ends)"
      using token_loop_unaliased [OF run t1] by blast
    have f: "fed s' = (seed, nc) # fed_from (seed @ [nc, nc]) (gs @ ends)"
      using r(6) by (simp add: t2)
    have k: "fst (fed s' ! k) = (if k = 0 then seed else seed @ [(nc # gs) ! 0] @ take k (nc # gs))"
      if "k < length (fed s')" for k
    proof (cases k)
      case 0
      then show ?thesis by (simp add: f)
    next
      case (Suc j)
      then have j: "j < length (gs @ ends)" using that f by simp
      have "take j (gs @ ends) = take j gs"
        using j r(3) by auto
      then show ?thesis
        using Suc j by (simp add: f nth_fed_from)
    qed
    have "store s' (chars_ref s') = seed @ (nc # gs)
     \<and> eos \<notin> set (nc # gs) \<and> (ends = [] \<or> ends = [eos])
     \<and> length (nc # gs) + length ends \<le> n \<and> (length (nc # gs) < n \<longrightarrow> ends = [eos])
     \<and> map snd (fed s') = (nc # gs) @ ends
     \<and> (\<forall>k<length (fed s'). fst (fed s' ! k)
            = (if k = 0 then seed else seed @ [(nc # gs) ! 0] @ take k (nc # gs)))"
      using r False Suc k by (simp add: f t2)
    then show ?thesis by blast
  qed
qed

lemma token_loop_replay:
  assumes "token_loop pick eos n (s, a) = Inr (s', a')"
  shows "\<exists>new. fed s' = fed s @ new \<and> replay pick a new a'"
  using assms
proof (induction n arbitrary: s a)
  case 0
  then show ?case by simp
next
  case (Suc n)
  from Suc.prems(1) obtain nc a1 where p: "pick a (store s (inp_ref s)) = Inr (nc, a1)"
    by (auto split: sum.splits)
  define s1 where "s1 = s\<lparr>fed := fed s @ [(store s (inp_ref s), nc)]\<rparr>"
  show ?case
  proof (cases "nc = eos")
    case True
    then have "s' = s1" "a' = a1"
      using Suc.prems(1) p by (simp_all add: s1_def)
    then have "fed s' = fed s @ [(store s (inp_ref s), nc)]
               \<and> replay pick a [(store s (inp_ref s), nc)] a'"
      using p by (simp add: s1_def)
    then show ?thesis by blast
  next
    case False
    have run: "token_loop pick eos n (advance nc s1, a1) = Inr (s', a')"
      using Suc.prems(1) p False by (simp add: s1_def)
    obtain new where r: "fed s' = fed (advance nc s1) @ new" "replay pick a1 new a'"
      using Suc.IH [OF run] by blast
    have "fed s' = fed s @ ((store s (inp_ref s), nc) # new)
          \<and> replay pick a ((store s (inp_ref s), nc) # new) a'"
      using r p by (simp add: s1_def)
    then show ?thesis by blast
  qed
qed

lemma replay_nth:
  assumes "replay pick a xs a'" and "k < length xs"
  shows "\<exists>a0 a1. pick a0 (fst (xs ! k)) = Inr (snd (xs ! k), a1)"
  using assms
proof (induction xs arbitrary: a k)
  case Nil
  then show ?case by simp
next
  case (Cons xt xs)
  obtain x t where xt: "xt = (x, t)" by (cases xt)
  from Cons.prems(1) obtain a1 where p: "pick a x = Inr (t, a1)" "replay pick a1 xs a'"
    by (auto simp: xt split: sum.splits)
  show ?case
  proof (cases k)
    case 0
    then show ?thesis using p(1) xt by auto
  next
    case (Suc j)
    then show ?thesis
      using Cons.IH [OF p(2), of j] Cons.prems(2) by simp
  qed
qed

lemma argmax_from_first_max:
  assumes "length pre = i" and "bi < i" and "pre ! bi = best"
    and "\<forall>j<i. pre ! j \<le> best" and "\<forall>j<bi. pre ! j < best"
  shows "argmax_from best bi i xs < length (pre @ xs)
     \<and> (\<forall>j<length (pre @ xs). (pre @ xs) ! j \<le> (pre @ xs) ! argmax_from best bi i xs)
     \<and> (\<forall>j<argmax_from best bi i xs. (pre @ xs) ! j < (pre @ xs) ! argmax_from best bi i xs)"
  using assms
proof (induction xs arbitrary: pre i bi best)
  case Nil
  then show ?case by simp
next
  case (Cons x xs)
  show ?case
  proof (cases "best < x")
    case True
    have "argmax_from x i (Suc i) xs < length ((pre @ [x]) @ xs)
     \<and> (\<forall>j<length ((pre @ [x]) @ xs). ((pre @ [x]) @ xs) ! j \<le> ((pre @ [x]) @ xs) ! argmax_from x i (Suc i) xs)
     \<and> (\<forall>j<argmax_from x i (Suc i) xs. ((pre @ [x]) @ xs) ! j < ((pre @ [x]) @ xs) ! argmax_from x i (Suc i) xs)"
    proof (rule Cons.IH)
      show "length (pre @ [x]) = Suc i" using Cons.prems(1) by simp
      show "i < Suc i" by simp
      show "(pre @ [x]) ! i = x" using Cons.prems(1) by (simp add: nth_append)
      show "\<forall>j<Suc i. (pre @ [x]) ! j \<le> x"
        using Cons.prems(1,4) True by (auto simp: nth_append less_Suc_eq)
      show "\<forall>j<i. (pre @ [x]) ! j < x"
        using Cons.prems(1,4) True by (auto simp: nth_append)
    qed
    then show ?thesis using True by simp
  next
    case False
    have "argmax_from best bi (Suc i) xs < length ((pre @ [x]) @ xs)
     \<and> (\<forall>j<length ((pre @ [x]) @ xs). ((pre @ [x]) @ xs) ! j \<le> ((pre @ [x]) @ xs) ! argmax_from best bi (Suc i) xs)
     \<and> (\<forall>j<argmax_from best bi (Suc i) xs. ((pre @ [x]) @ xs) ! j < ((pre @ [x]) @ xs) ! argmax_from best bi (Suc i) xs)"
    proof (rule Cons.IH)
      show "length (pre @ [x]) = Suc i" using Cons.prems(1) by simp
      show "bi < Suc i" using Cons.prems(2) by simp
      show "(pre @ [x]) ! bi = best" using Cons.prems(1,2,3) by (simp add: nth_append)
      show "\<forall>j<Suc i. (pre @ [x]) ! j \<le> best"
        using Cons.prems(1,4) False by (auto simp: nth_append less_Suc_eq)
      show "\<forall>j<bi. (pre @ [x]) ! j < best"
        using Cons.prems(1,2,5) by (auto simp: nth_append)
    qed
    then show ?thesis using False by simp
  qed
qed

lemma argmax_first_max:
  assumes "argmax xs = Some i"
  shows "i < length xs \<and> (\<forall>j<length xs. xs ! j \<le> xs ! i) \<and> (\<forall>j<i. xs ! j < xs ! i)"
proof (cases xs)
  case Nil
  then show ?thesis using assms by (simp add: argmax_def)
next
  case (Cons x r)
  then have i: "i = argmax_from x 0 1 r"
    using assms by (simp add: argmax_def)
  show ?thesis
    using argmax_from_first_max [of "[x]" 1 0 x r] by (simp add: Cons i)
qed

lemma generate_run_facts:
  assumes "generate_run model vocab_size eos wi sz start = Inr s"
  shows "\<exists>gs ends.
     store s (chars_ref s) = texts_to_sequences wi start @ gs
     \<and> eos \<notin> set gs \<and> (ends = [] \<or> ends = [eos])
     \<and> length gs + length ends \<le> sz \<and> (length gs < sz \<longrightarrow> ends = [eos])
     \<and> map snd (fed s) = gs @ ends
     \<and> (\<forall>k<length (fed s). fst (fed s ! k)
            = (if k = 0 then texts_to_sequences wi start
               else texts_to_sequences wi start @ [gs ! 0] @ take k gs))
     \<and> replay (greedy_pick model vocab_size) () (fed s) ()"
proof -
  obtain u where t: "token_loop (greedy_pick model vocab_size) eos sz
                       (init_frame (texts_to_sequences wi start), ()) = Inr (s, u)"
    using assms unfolding generate_run_def generate_loop_token_loop
    by (cases "token_loop (greedy_pick model vocab_size) eos sz
                  (init_frame (texts_to_sequences wi start), ())") auto
  have "fed (init_frame (texts_to_sequences wi start)) = []"
    by (simp add: init_frame_def)
  then have "replay (greedy_pick model vocab_size) () (fed s) ()"
    using token_loop_replay [OF t] by auto
  then show ?thesis
    using token_loop_init [OF t] by blast
qed

lemma generate_soft_run_facts:
  assumes "generate_soft_run ops model vocab_size eos wi multinomial sz start temperature g = Inr (s, g')"
  shows "\<exists>gs ends.
     store s (chars_ref s) = texts_to_sequences wi start @ gs
     \<and> eos \<notin> set gs \<and> (ends = [] \<or> ends = [eos])
     \<and> length gs + length ends \<le> sz \<and> (length gs < sz \<longrightarrow> ends = [eos])
     \<and> map snd (fed s) = gs @ ends
     \<and> (\<forall>k<length (fed s). fst (fed s ! k)
            = (if k = 0 then texts_to_sequences wi start
               else texts_to_sequences wi start @ [gs ! 0] @ take k gs))
     \<and> replay (soft_pick ops model vocab_size multinomial temperature) g (fed s) g'"
proof -
  have t: "token_loop (soft_pick ops model vocab_size multinomial temperature) eos sz
             (init_frame (texts_to_sequences wi start), g) = Inr (s, g')"
    using assms unfolding generate_soft_run_def generate_soft_loop_token_loop .
  have "fed (init_frame (texts_to_sequences wi start)) = []"
    by (simp add: init_frame_def)
  then have "replay (soft_pick ops model vocab_size multinomial temperature) g (fed s) g'"
    using token_loop_replay [OF t] by auto
  then show ?thesis
    using token_loop_init [OF t] by blast
qed


lemma demo_globals:
  "keras_word_index demo_index" "eos_token demo_index = 3" "vocab_size_of demo_index = 4"
  "word_index_eos demo_index = [(''a'', 1), (''b'', 2), (''<eos>'', 3)]"
  "reverse_map (word_index_eos demo_index) = [(1, ''a''), (2, ''b''), (3, ''<eos>'')]"
  by (simp_all add: keras_word_index_def demo_index_def eos_token_def vocab_size_of_def
        word_index_eos_def reverse_map_def upt_rec)

lemma demo_last_output:
  "xs \<noteq> [] \<Longrightarrow> last_output demo_model V xs
     = Inr (if length xs < 4 then [1/8, 1/4, 1/2, 1/8] else [1/8, 1/8, 1/4, 1/2])"
  by (simp add: last_output_def demo_model_def one_hot_def Let_def last_map)

lemma demo_generate_run:
  "generate_run demo_model 4 3 [(''a'', 1), (''b'', 2), (''<eos>'', 3)] 5 ''a''
   = Inr \<lparr>store = (\<lambda>_. [])(1 := [1, 2, 2], 0 := [1, 2, 2], 2 := [1, 2, 2, 2]), fresh = 3,
          inp_ref = 2, chars_ref = 0,
          fed = [([1], 2), ([1, 2, 2], 2), ([1, 2, 2, 2], 3)]\<rparr>"
  by (simp add: generate_run_def texts_to_sequences_def init_frame_def eval_nat_numeral
        demo_last_output argmax_def advance_def list_append_def list_concat_def Let_def)

lemma greedy_pick_argmax:
  assumes "greedy_pick model vocab_size a0 x = Inr (t, a1)"
  shows "\<exists>out i. last_output model vocab_size x = Inr out \<and> argmax out = Some i \<and> t = int i
           \<and> i < length out \<and> (\<forall>j<length out. out ! j \<le> out ! i) \<and> (\<forall>j<i. out ! j < out ! i)"
proof -
  from assms obtain out i where o: "last_output model vocab_size x = Inr out"
      "argmax out = Some i" "t = int i"
    by (auto simp: greedy_pick_def split: sum.splits option.splits)
  then show ?thesis
    using argmax_first_max [OF o(2)] by blast
qed

lemma soft_pick_sampled:
  assumes "soft_pick ops model vocab_size multinomial temperature g0 x = Inr (t, g1)"
  shows "\<exists>out counts. last_output model vocab_size x = Inr out
           \<and> multinomial g0 (temperature_probs ops out temperature) = Inr (counts, g1)
           \<and> argmax counts = Some (nat t) \<and> 0 \<le> t"
  using assms by (auto simp: soft_pick_def split: sum.splits option.splits)

lemma stop_or_exhaust:
  assumes "store s (chars_ref s) = seed @ gs" and "eos \<notin> set gs"
    and "ends = [] \<or> ends = [eos]" and "length gs + length ends \<le> sz"
    and "length gs < sz \<longrightarrow> ends = [eos]" and "map snd (fed s) = gs @ ends"
  shows "length (fed s) \<le> sz
     \<and> (store s (chars_ref s) = seed @ map snd (fed s) \<and> length (fed s) = sz
           \<and> eos \<notin> set (map snd (fed s))
         \<or> store s (chars_ref s) = seed @ butlast (map snd (fed s)) \<and> fed s \<noteq> []
           \<and> snd (last (fed s)) = eos \<and> eos \<notin> set (butlast (map snd (fed s))))"
proof -
  have len: "length (fed s) = length gs + length ends"
    using assms(6) by (metis length_append length_map)
  show ?thesis
  proof (cases "ends = []")
    case True
    then have "map snd (fed s) = gs" "length gs = sz"
      using assms(4,5,6) by auto
    then show ?thesis using assms(1,2) len True by simp
  next
    case False
    then have e: "ends = [eos]" using assms(3) by simp
    then have m: "map snd (fed s) = gs @ [eos]" using assms(6) by simp
    then have ne: "fed s \<noteq> []" by auto
    have "snd (last (fed s)) = last (map snd (fed s))"
      using ne by (simp add: last_map)
    then have "snd (last (fed s)) = eos" using m by simp
    then show ?thesis
      using assms(1,2,4) m ne len e by simp
  qed
qed

text \<open>
  C4. \<open>generate\<close> is greedy: every token it chooses is the index of the first largest
  entry of the model's output for the sequence passed at that step, nothing is sampled,
  and the loop either runs \<open>size\<close> steps, appending every chosen token, or stops at the
  first step whose choice is the end-of-sequence token, which is not appended.
\<close>

theorem generate_greedy:
  assumes "generate_run model vocab_size eos wi sz start = Inr s"
  shows "length (fed s) \<le> sz
     \<and> (\<forall>k<length (fed s). \<exists>out i.
           last_output model vocab_size (fst (fed s ! k)) = Inr out \<and> argmax out = Some i
           \<and> snd (fed s ! k) = int i
           \<and> i < length out \<and> (\<forall>j<length out. out ! j \<le> out ! i) \<and> (\<forall>j<i. out ! j < out ! i))
     \<and> (store s (chars_ref s) = texts_to_sequences wi start @ map snd (fed s)
           \<and> length (fed s) = sz \<and> eos \<notin> set (map snd (fed s))
         \<or> store s (chars_ref s) = texts_to_sequences wi start @ butlast (map snd (fed s))
           \<and> fed s \<noteq> [] \<and> snd (last (fed s)) = eos
           \<and> eos \<notin> set (butlast (map snd (fed s))))
     \<and> generate model vocab_size eos wi rm sz start = Inr (decode rm (store s (chars_ref s)))"
proof -
  obtain gs ends where f:
    "store s (chars_ref s) = texts_to_sequences wi start @ gs"
    "eos \<notin> set gs" "ends = [] \<or> ends = [eos]"
    "length gs + length ends \<le> sz" "length gs < sz \<longrightarrow> ends = [eos]"
    "map snd (fed s) = gs @ ends"
    "replay (greedy_pick model vocab_size) () (fed s) ()"
    using generate_run_facts [OF assms] by blast
  have steps: "\<exists>out i.
           last_output model vocab_size (fst (fed s ! k)) = Inr out \<and> argmax out = Some i
           \<and> snd (fed s ! k) = int i
           \<and> i < length out \<and> (\<forall>j<length out. out ! j \<le> out ! i) \<and> (\<forall>j<i. out ! j < out ! i)"
    if "k < length (fed s)" for k
    using replay_nth [OF f(7) that] greedy_pick_argmax by blast
  have g: "generate model vocab_size eos wi rm sz start = Inr (decode rm (store s (chars_ref s)))"
    using assms by (simp add: generate_def)
  show ?thesis
    using stop_or_exhaust [OF f(1-6)] steps g by blast
qed

theorem generate_greedy_witness:
  "\<exists>s. generate_run demo_model 4 3 [(''a'', 1), (''b'', 2), (''<eos>'', 3)] 5 ''a'' = Inr s
     \<and> fed s = [([1], 2), ([1, 2, 2], 2), ([1, 2, 2, 2], 3)]
     \<and> store s (chars_ref s) = [1, 2, 2]
     \<and> (\<forall>k<length (fed s). \<exists>out i.
           last_output demo_model 4 (fst (fed s ! k)) = Inr out \<and> argmax out = Some i
           \<and> snd (fed s ! k) = int i
           \<and> i < length out \<and> (\<forall>j<length out. out ! j \<le> out ! i) \<and> (\<forall>j<i. out ! j < out ! i))
     \<and> generate demo_model 4 3 [(''a'', 1), (''b'', 2), (''<eos>'', 3)]
          [(1, ''a''), (2, ''b''), (3, ''<eos>'')] 5 ''a'' = Inr ''abb''"
proof -
  define S where "S = \<lparr>store = (\<lambda>_. [])(1 := [1, 2, 2], 0 := [1, 2, 2], 2 := [1, 2, 2, 2]),
          fresh = 3, inp_ref = 2, chars_ref = 0,
          fed = [([1], 2), ([1, 2, 2], 2), ([1, 2, 2, 2], 3)]\<rparr>"
  have r: "generate_run demo_model 4 3 [(''a'', 1), (''b'', 2), (''<eos>'', 3)] 5 ''a'' = Inr S"
    unfolding S_def by (rule demo_generate_run)
  have fs: "fed S = [([1], 2), ([1, 2, 2], 2), ([1, 2, 2, 2], 3)]"
    and st: "store S (chars_ref S) = [1, 2, 2]"
    by (simp_all add: S_def)
  note t = generate_greedy [OF r, of "[(1, ''a''), (2, ''b''), (3, ''<eos>'')]"]
  have steps: "\<forall>k<length (fed S). \<exists>out i.
           last_output demo_model 4 (fst (fed S ! k)) = Inr out \<and> argmax out = Some i
           \<and> snd (fed S ! k) = int i
           \<and> i < length out \<and> (\<forall>j<length out. out ! j \<le> out ! i) \<and> (\<forall>j<i. out ! j < out ! i)"
    using t by blast
  have "generate demo_model 4 3 [(''a'', 1), (''b'', 2), (''<eos>'', 3)]
          [(1, ''a''), (2, ''b''), (3, ''<eos>'')] 5 ''a''
        = Inr (decode [(1, ''a''), (2, ''b''), (3, ''<eos>'')] (store S (chars_ref S)))"
    using t by blast
  then have g: "generate demo_model 4 3 [(''a'', 1), (''b'', 2), (''<eos>'', 3)]
          [(1, ''a''), (2, ''b''), (3, ''<eos>'')] 5 ''a'' = Inr ''abb''"
    by (simp add: st decode_def)
  show ?thesis
    by (intro exI [of _ S] conjI r fs st steps g)
qed


lemma demo_probs [simp]:
  "temperature_probs exact_ops [1/8, 1/4, 1/2, 1/8] 1 = [1/8, 1/4, 1/2, 1/8]"
  "temperature_probs exact_ops [1/8, 1/8, 1/4, 1/2] 1 = [1/8, 1/8, 1/4, 1/2]"
  by (simp_all add: temperature_probs_def exact_ops_def)

lemma demo_generate_soft_run:
  "generate_soft_run exact_ops demo_model 4 3 [(''a'', 1), (''b'', 2), (''<eos>'', 3)] inversion_sampler 5 ''a'' 1
      [1/2, 1/5, 9/10]
   = Inr (\<lparr>store = (\<lambda>_. [])(1 := [1, 2, 2], 0 := [1, 2, 1], 2 := [1, 2, 2, 1]), fresh = 3,
          inp_ref = 2, chars_ref = 0,
          fed = [([1], 2), ([1, 2, 2], 1), ([1, 2, 2, 1], 3)]\<rparr>, [])"
  by (simp add: generate_soft_run_def texts_to_sequences_def init_frame_def eval_nat_numeral
        demo_last_output argmax_def advance_def list_append_def list_concat_def Let_def
        inversion_sampler_def)


section \<open>The end-of-sequence token\<close>

lemma seed_has_no_eos:
  assumes "keras_word_index wi"
  shows "eos_token wi \<notin> set (texts_to_sequences (word_index_eos wi) start)"
proof
  assume "eos_token wi \<in> set (texts_to_sequences (word_index_eos wi) start)"
  then obtain c where c: "map_of (word_index_eos wi) [c] = Some (eos_token wi)"
    by (auto simp: texts_to_sequences_def split: option.splits)
  have "map_of (word_index_eos wi) [c] = map_of wi [c]"
    by (simp add: word_index_eos_def update_conv')
  then have "([c], eos_token wi) \<in> set wi"
    using c by (simp add: map_of_SomeD)
  then have "eos_token wi \<in> snd ` set wi"
    by force
  then show False
    using keras_values [OF assms, of "eos_token wi"] by (simp add: eos_token_def)
qed

text \<open>
  C9 (as amended). The end-of-sequence token is never part of the token list that the
  generators build: with the notebook's tokenizer the list that \<open>decode\<close> gets from
  \<open>generate\<close> and from \<open>generate_soft\<close> has no occurrence of \<open>eos_token\<close>.
\<close>

theorem eos_token_not_in_output:
  assumes "keras_word_index wi"
  shows "(generate_run model vocab_size (eos_token wi) (word_index_eos wi) sz start = Inr s \<longrightarrow>
            eos_token wi \<notin> set (store s (chars_ref s))
            \<and> generate model vocab_size (eos_token wi) (word_index_eos wi) rm sz start
                = Inr (decode rm (store s (chars_ref s))))
       \<and> (generate_soft_run ops model vocab_size (eos_token wi) (word_index_eos wi) multinomial sz
              start temperature g = Inr (s', g') \<longrightarrow>
            eos_token wi \<notin> set (store s' (chars_ref s'))
            \<and> generate_soft ops model vocab_size (eos_token wi) (word_index_eos wi) rm multinomial sz
                start temperature g
                = Inr (decode rm (store s' (chars_ref s')), g'))"
proof -
  note seed = seed_has_no_eos [OF assms, of start]
  have a: "eos_token wi \<notin> set (store s (chars_ref s))
            \<and> generate model vocab_size (eos_token wi) (word_index_eos wi) rm sz start
                = Inr (decode rm (store s (chars_ref s)))"
    if run: "generate_run model vocab_size (eos_token wi) (word_index_eos wi) sz start = Inr s"
  proof -
    obtain gs where "store s (chars_ref s) = texts_to_sequences (word_index_eos wi) start @ gs"
      "eos_token wi \<notin> set gs"
      using generate_run_facts [OF run] by blast
    then show ?thesis using seed run by (simp add: generate_def)
  qed
  have b: "eos_token wi \<notin> set (store s' (chars_ref s'))
            \<and> generate_soft ops model vocab_size (eos_token wi) (word_index_eos wi) rm multinomial sz
                start temperature g
                = Inr (decode rm (store s' (chars_ref s')), g')"
    if run: "generate_soft_run ops model vocab_size (eos_token wi) (word_index_eos wi) multinomial sz
              start temperature g = Inr (s', g')"
  proof -
    obtain gs where "store s' (chars_ref s') = texts_to_sequences (word_index_eos wi) start @ gs"
      "eos_token wi \<notin> set gs"
      using generate_soft_run_facts [OF run] by blast
    then show ?thesis using seed run by (simp add: generate_soft_def)
  qed
  show ?thesis using a b by blast
qed

theorem eos_token_not_in_output_witness:
  "keras_word_index demo_index
   \<and> (\<exists>s s' g'.
     generate_run demo_model 4 (eos_token demo_index) (word_index_eos demo_index) 5 ''a'' = Inr s
     \<and> generate_soft_run exact_ops demo_model 4 (eos_token demo_index) (word_index_eos demo_index)
          inversion_sampler 5 ''a'' 1 [1/2, 1/5, 9/10] = Inr (s', g')
     \<and> store s (chars_ref s) = [1, 2, 2] \<and> store s' (chars_ref s') = [1, 2, 1]
     \<and> eos_token demo_index = 3
     \<and> eos_token demo_index \<notin> set (store s (chars_ref s))
     \<and> eos_token demo_index \<notin> set (store s' (chars_ref s')))"
proof -
  define S where "S = \<lparr>store = (\<lambda>_. [])(1 := [1, 2, 2], 0 := [1, 2, 2], 2 := [1, 2, 2, 2]),
          fresh = 3, inp_ref = 2, chars_ref = 0,
          fed = [([1], 2), ([1, 2, 2], 2), ([1, 2, 2, 2], 3)]\<rparr>"
  define S' where "S' = \<lparr>store = (\<lambda>_. [])(1 := [1, 2, 2], 0 := [1, 2, 1], 2 := [1, 2, 2, 1]),
          fresh = 3, inp_ref = 2, chars_ref = 0,
          fed = [([1], 2), ([1, 2, 2], 1), ([1, 2, 2, 1], 3)]\<rparr>"
  have r: "generate_run demo_model 4 (eos_token demo_index) (word_index_eos demo_index) 5 ''a'' = Inr S"
    unfolding S_def demo_globals by (rule demo_generate_run)
  have r': "generate_soft_run exact_ops demo_model 4 (eos_token demo_index) (word_index_eos demo_index)
              inversion_sampler 5 ''a'' 1 [1/2, 1/5, 9/10] = Inr (S', [])"
    unfolding S'_def demo_globals by (rule demo_generate_soft_run)
  have fs: "store S (chars_ref S) = [1, 2, 2]" "store S' (chars_ref S') = [1, 2, 1]"
    by (simp_all add: S_def S'_def)
  note t = eos_token_not_in_output [OF demo_globals(1), of demo_model 4 5 "''a''" S "[]"
      exact_ops inversion_sampler 1 "[1/2, 1/5, 9/10]" S' "[]"]
  have n: "eos_token demo_index \<notin> set (store S (chars_ref S))"
    "eos_token demo_index \<notin> set (store S' (chars_ref S'))"
    using t r r' by blast+
  show ?thesis
    by (intro exI [of _ S] exI [of _ S'] exI [of _ "[]"] conjI demo_globals(1) demo_globals(2) r r' fs n)
qed

text \<open>
  C9 (as stated) fails for the decoded string: the characters of the marker can be
  ordinary tokens. With a vocabulary that has them, the seed \<open><eos>\<close> and a model
  that ends the sequence at once, \<open>generate\<close> returns the string \<open><eos>\<close>.
\<close>

theorem eos_marker_in_string_counterexample:
  "keras_word_index [(''<'', 1), (''e'', 2), (''o'', 3), (''s'', 4), (''>'', 5)]
   \<and> generate (\<lambda>rows. map (\<lambda>_. [1/12, 1/12, 1/12, 1/12, 1/12, 1/12, 1/2]) rows) 7
       (eos_token [(''<'', 1), (''e'', 2), (''o'', 3), (''s'', 4), (''>'', 5)])
       (word_index_eos [(''<'', 1), (''e'', 2), (''o'', 3), (''s'', 4), (''>'', 5)])
       (reverse_map (word_index_eos [(''<'', 1), (''e'', 2), (''o'', 3), (''s'', 4), (''>'', 5)]))
       1 ''<eos>''
     = Inr ''<eos>''"
  by (simp add: keras_word_index_def upt_rec generate_def generate_run_def eos_token_def
        word_index_eos_def reverse_map_def texts_to_sequences_def init_frame_def
        last_output_def one_hot_def Let_def argmax_def decode_def)

section \<open>The sampling generator\<close>

lemma token_loop_returns:
  assumes "\<And>a x. x \<noteq> [] \<Longrightarrow> \<exists>t a'. pick a x = Inr (t, a')"
    and "store s (inp_ref s) \<noteq> []"
  shows "\<exists>s' a'. token_loop pick eos n (s, a) = Inr (s', a')"
  using assms(2)
proof (induction n arbitrary: s a)
  case 0
  then show ?case by simp
next
  case (Suc n)
  obtain nc a1 where p: "pick a (store s (inp_ref s)) = Inr (nc, a1)"
    using assms(1) [OF Suc.prems] by blast
  define s1 where "s1 = s\<lparr>fed := fed s @ [(store s (inp_ref s), nc)]\<rparr>"
  have "store (advance nc s1) (inp_ref (advance nc s1)) \<noteq> []"
    by (simp add: advance_store_inp)
  from Suc.IH [OF this, of a1] show ?case
    using p by (auto simp: s1_def Let_def)
qed

lemma pick_category_nonempty: "probs \<noteq> [] \<Longrightarrow> pick_category u probs \<noteq> []"
  by (induction u probs rule: pick_category.induct) simp_all

lemma soft_pick_returns:
  assumes "last_output model vocab_size x = Inr out"
    and "multinomial g (temperature_probs ops out temperature) = Inr (counts, g1)"
    and "counts \<noteq> []"
  shows "\<exists>t g'. soft_pick ops model vocab_size multinomial temperature g x = Inr (t, g')"
proof -
  obtain nc where "argmax counts = Some nc"
    using assms(3) by (cases counts) (simp_all add: argmax_def)
  then show ?thesis
    using assms(1,2) by (simp add: soft_pick_def)
qed

lemma takeWhile_generated:
  assumes "eos \<notin> set gs" and "ends = [] \<or> ends = [eos]"
  shows "takeWhile (\<lambda>t. t \<noteq> eos) (gs @ ends) = gs"
  using assms by (induction gs) auto

text \<open>
  C2. \<open>generate_soft\<close> encodes the seed and runs at most \<open>size\<close> iterations. When the
  encoded seed is not empty and, for every sequence, the model gives an output whose
  rescaling the sampler accepts with a row of counts, the call returns. Whenever it
  returns, the recorded calls are at most \<open>size\<close>, the first is on the encoded seed,
  each is one call of the model on the sequence bound to \<open>inp\<close> followed by one call
  of the sampler on the output rescaled as in the source (logarithm, division by the
  temperature, exponential, conversion to float64, division by the sum), with the
  generator state handed from one call to the next, and the loop either appends all
  \<open>size\<close> sampled tokens or stops at the first sampled end-of-sequence token, which is
  not appended.
\<close>

theorem generate_soft_at_most_size_samples:
  "(texts_to_sequences wi start \<noteq> []
      \<and> (\<forall>x. x \<noteq> [] \<longrightarrow>
            (\<exists>out. last_output model vocab_size x = Inr out
               \<and> (\<forall>g0. \<exists>counts g1.
                     multinomial g0 (temperature_probs ops out temperature) = Inr (counts, g1)
                     \<and> counts \<noteq> [])))
      \<longrightarrow> (\<exists>s1 g1. generate_soft_run ops model vocab_size eos wi multinomial sz start temperature g
                      = Inr (s1, g1)))
   \<and> (generate_soft_run ops model vocab_size eos wi multinomial sz start temperature g = Inr (s, g') \<longrightarrow>
       length (fed s) \<le> sz
     \<and> (fed s \<noteq> [] \<longrightarrow> fst (fed s ! 0) = texts_to_sequences wi start)
     \<and> replay (soft_pick ops model vocab_size multinomial temperature) g (fed s) g'
     \<and> (\<forall>k<length (fed s). \<exists>out g0 counts g1.
           last_output model vocab_size (fst (fed s ! k)) = Inr out
           \<and> multinomial g0
               (let e = map (\<lambda>p. astype_float64 ops
                                   (tf_exp ops (tf_div ops (tf_log ops p) temperature))) out
                in map (\<lambda>p. np_divide ops p (np_sum ops e)) e)
               = Inr (counts, g1)
           \<and> argmax counts = Some (nat (snd (fed s ! k)))
           \<and> 0 \<le> snd (fed s ! k))
     \<and> (store s (chars_ref s) = texts_to_sequences wi start @ map snd (fed s)
           \<and> length (fed s) = sz \<and> eos \<notin> set (map snd (fed s))
         \<or> store s (chars_ref s) = texts_to_sequences wi start @ butlast (map snd (fed s))
           \<and> fed s \<noteq> [] \<and> snd (last (fed s)) = eos
           \<and> eos \<notin> set (butlast (map snd (fed s))))
     \<and> generate_soft ops model vocab_size eos wi rm multinomial sz start temperature g
         = Inr (decode rm (store s (chars_ref s)), g'))"
proof (intro conjI impI)
  assume h: "texts_to_sequences wi start \<noteq> []
      \<and> (\<forall>x. x \<noteq> [] \<longrightarrow>
            (\<exists>out. last_output model vocab_size x = Inr out
               \<and> (\<forall>g0. \<exists>counts g1.
                     multinomial g0 (temperature_probs ops out temperature) = Inr (counts, g1)
                     \<and> counts \<noteq> [])))"
  have pick: "\<exists>t a'. soft_pick ops model vocab_size multinomial temperature a x = Inr (t, a')"
    if x: "x \<noteq> []" for a x
  proof -
    obtain out where o: "last_output model vocab_size x = Inr out"
      "\<forall>g0. \<exists>counts g1.
          multinomial g0 (temperature_probs ops out temperature) = Inr (counts, g1) \<and> counts \<noteq> []"
      using h x by blast
    obtain counts g1 where
      "multinomial a (temperature_probs ops out temperature) = Inr (counts, g1)" "counts \<noteq> []"
      using o(2) by blast
    from soft_pick_returns [where multinomial = multinomial and g = a, OF o(1) this]
    show ?thesis .
  qed
  have "store (init_frame (texts_to_sequences wi start))
          (inp_ref (init_frame (texts_to_sequences wi start))) \<noteq> []"
    using h by (simp add: init_frame_def)
  from token_loop_returns [of "soft_pick ops model vocab_size multinomial temperature", OF pick this]
  show "\<exists>s1 g1. generate_soft_run ops model vocab_size eos wi multinomial sz start temperature g
                      = Inr (s1, g1)"
    unfolding generate_soft_run_def generate_soft_loop_token_loop by blast
next
  assume run: "generate_soft_run ops model vocab_size eos wi multinomial sz start temperature g
                 = Inr (s, g')"
  obtain gs ends where f:
    "store s (chars_ref s) = texts_to_sequences wi start @ gs"
    "eos \<notin> set gs" "ends = [] \<or> ends = [eos]"
    "length gs + length ends \<le> sz" "length gs < sz \<longrightarrow> ends = [eos]"
    "map snd (fed s) = gs @ ends"
    "\<forall>k<length (fed s). fst (fed s ! k)
            = (if k = 0 then texts_to_sequences wi start
               else texts_to_sequences wi start @ [gs ! 0] @ take k gs)"
    "replay (soft_pick ops model vocab_size multinomial temperature) g (fed s) g'"
    using generate_soft_run_facts [OF run] by blast
  note soe = stop_or_exhaust [OF f(1-6)]
  show "length (fed s) \<le> sz"
    using soe by blast
  show "store s (chars_ref s) = texts_to_sequences wi start @ map snd (fed s)
           \<and> length (fed s) = sz \<and> eos \<notin> set (map snd (fed s))
         \<or> store s (chars_ref s) = texts_to_sequences wi start @ butlast (map snd (fed s))
           \<and> fed s \<noteq> [] \<and> snd (last (fed s)) = eos
           \<and> eos \<notin> set (butlast (map snd (fed s)))"
    using soe by blast
  show "replay (soft_pick ops model vocab_size multinomial temperature) g (fed s) g'"
    by (rule f(8))
  show "\<forall>k<length (fed s). \<exists>out g0 counts g1.
           last_output model vocab_size (fst (fed s ! k)) = Inr out
           \<and> multinomial g0
               (let e = map (\<lambda>p. astype_float64 ops
                                   (tf_exp ops (tf_div ops (tf_log ops p) temperature))) out
                in map (\<lambda>p. np_divide ops p (np_sum ops e)) e)
               = Inr (counts, g1)
           \<and> argmax counts = Some (nat (snd (fed s ! k)))
           \<and> 0 \<le> snd (fed s ! k)"
  proof (intro allI impI)
    fix k
    assume kl: "k < length (fed s)"
    obtain a0 a1 where "soft_pick ops model vocab_size multinomial temperature a0 (fst (fed s ! k))
                        = Inr (snd (fed s ! k), a1)"
      using replay_nth [OF f(8) kl] by blast
    from soft_pick_sampled [OF this]
    show "\<exists>out g0 counts g1.
           last_output model vocab_size (fst (fed s ! k)) = Inr out
           \<and> multinomial g0
               (let e = map (\<lambda>p. astype_float64 ops
                                   (tf_exp ops (tf_div ops (tf_log ops p) temperature))) out
                in map (\<lambda>p. np_divide ops p (np_sum ops e)) e)
               = Inr (counts, g1)
           \<and> argmax counts = Some (nat (snd (fed s ! k)))
           \<and> 0 \<le> snd (fed s ! k)"
      unfolding temperature_probs_def by blast
  qed
  show "generate_soft ops model vocab_size eos wi rm multinomial sz start temperature g
         = Inr (decode rm (store s (chars_ref s)), g')"
    using run by (simp add: generate_soft_def)
  show "fst (fed s ! 0) = texts_to_sequences wi start" if "fed s \<noteq> []"
    using f(7) that by auto
qed

theorem generate_soft_at_most_size_samples_witness:
  "\<exists>s g'.
     generate_soft_run exact_ops demo_model 4 3 [(''a'', 1), (''b'', 2), (''<eos>'', 3)]
          inversion_sampler 5 ''a'' 1 [1/2, 1/5, 9/10, 1/3] = Inr (s, g')
     \<and> fed s = [([1], 2), ([1, 2, 2], 1), ([1, 2, 2, 1], 3)]
     \<and> g' = [1/3]
     \<and> store s (chars_ref s) = [1, 2, 1]
     \<and> length (fed s) \<le> 5
     \<and> replay (soft_pick exact_ops demo_model 4 inversion_sampler 1) [1/2, 1/5, 9/10, 1/3] (fed s) g'
     \<and> generate_soft exact_ops demo_model 4 3 [(''a'', 1), (''b'', 2), (''<eos>'', 3)]
          [(1, ''a''), (2, ''b''), (3, ''<eos>'')] inversion_sampler 5 ''a'' 1 [1/2, 1/5, 9/10, 1/3]
        = Inr (''aba'', [1/3])
     \<and> (\<exists>s1 g1. generate_soft_run exact_ops demo_model 4 3 [(''a'', 1), (''b'', 2), (''<eos>'', 3)]
           inversion_sampler 100 ''ab'' 1 [] = Inr (s1, g1))"
proof -
  define S where "S = \<lparr>store = (\<lambda>_. [])(1 := [1, 2, 2], 0 := [1, 2, 1], 2 := [1, 2, 2, 1]),
          fresh = 3, inp_ref = 2, chars_ref = 0,
          fed = [([1], 2), ([1, 2, 2], 1), ([1, 2, 2, 1], 3)]\<rparr>"
  have r: "generate_soft_run exact_ops demo_model 4 3 [(''a'', 1), (''b'', 2), (''<eos>'', 3)]
              inversion_sampler 5 ''a'' 1 [1/2, 1/5, 9/10, 1/3] = Inr (S, [1/3])"
    unfolding S_def
    by (simp add: generate_soft_run_def texts_to_sequences_def init_frame_def eval_nat_numeral
        demo_last_output argmax_def advance_def list_append_def list_concat_def Let_def
        inversion_sampler_def)
  have fs: "fed S = [([1], 2), ([1, 2, 2], 1), ([1, 2, 2, 1], 3)]"
    and st: "store S (chars_ref S) = [1, 2, 1]"
    by (simp_all add: S_def)
  note t = generate_soft_at_most_size_samples [of "[(''a'', 1), (''b'', 2), (''<eos>'', 3)]" "''a''"
      demo_model 4 inversion_sampler exact_ops 1 3 5 "[1/2, 1/5, 9/10, 1/3]" S "[1/3]"
      "[(1, ''a''), (2, ''b''), (3, ''<eos>'')]"]
  have len: "length (fed S) \<le> 5"
    using t r by blast
  have rp: "replay (soft_pick exact_ops demo_model 4 inversion_sampler 1) [1/2, 1/5, 9/10, 1/3]
              (fed S) [1/3]"
    using t r by blast
  have "generate_soft exact_ops demo_model 4 3 [(''a'', 1), (''b'', 2), (''<eos>'', 3)]
          [(1, ''a''), (2, ''b''), (3, ''<eos>'')] inversion_sampler 5 ''a'' 1 [1/2, 1/5, 9/10, 1/3]
        = Inr (decode [(1, ''a''), (2, ''b''), (3, ''<eos>'')] (store S (chars_ref S)), [1/3])"
    using t r by blast
  then have g: "generate_soft exact_ops demo_model 4 3 [(''a'', 1), (''b'', 2), (''<eos>'', 3)]
          [(1, ''a''), (2, ''b''), (3, ''<eos>'')] inversion_sampler 5 ''a'' 1 [1/2, 1/5, 9/10, 1/3]
        = Inr (''aba'', [1/3])"
    by (simp add: st decode_def)
  have seed: "texts_to_sequences [(''a'', 1), (''b'', 2), (''<eos>'', 3)] ''ab'' \<noteq> []"
    by (simp add: texts_to_sequences_def)
  have acc: "\<exists>counts g1. inversion_sampler g0 (temperature_probs exact_ops out 1) = Inr (counts, g1)
                \<and> counts \<noteq> []"
    if "out = [1/8, 1/4, 1/2, 1/8] \<or> out = [1/8, 1/8, 1/4, 1/2]" for g0 out
    using that
    by (cases g0) (auto simp: inversion_sampler_def pick_category_nonempty
                        simp del: pick_category.simps)
  have m: "\<forall>x. x \<noteq> [] \<longrightarrow>
            (\<exists>out. last_output demo_model 4 x = Inr out
               \<and> (\<forall>g0. \<exists>counts g1.
                     inversion_sampler g0 (temperature_probs exact_ops out 1) = Inr (counts, g1)
                     \<and> counts \<noteq> []))"
    using acc by (simp add: demo_last_output)
  have ret: "\<exists>s1 g1. generate_soft_run exact_ops demo_model 4 3 [(''a'', 1), (''b'', 2), (''<eos>'', 3)]
           inversion_sampler 100 ''ab'' 1 [] = Inr (s1, g1)"
    using generate_soft_at_most_size_samples [of "[(''a'', 1), (''b'', 2), (''<eos>'', 3)]" "''ab''"
      demo_model 4 inversion_sampler exact_ops 1 3 100 "[]"] seed m
    by blast
  show ?thesis
    by (intro exI [of _ S] exI [of _ "[1/3]"] conjI r fs st len rp g refl ret)
qed

section \<open>Dependence on the generator state and on the globals\<close>

text \<open>
  C3 (as amended). \<open>generate_soft\<close> is not pure: besides its arguments it reads the
  globals \<open>tokenizer.word_index\<close>, \<open>vocab_size\<close>, \<open>eos_token\<close> and \<open>reverse_map\<close>
  and the state of the generator, which it advances. When it returns, the string is
  \<open>decode\<close> of the encoded seed followed by the tokens drawn before the first
  end-of-sequence token, and the generator state is the one reached by one draw for
  every call of the model. So two returning runs with the same model, size, seed,
  temperature and globals return the same string whenever they draw the same tokens,
  from whatever generator states.
\<close>

theorem generate_soft_string_from_draws:
  assumes "generate_soft_run ops model vocab_size eos wi m1 sz start temperature g = Inr (s1, g1)"
    and "generate_soft_run ops model vocab_size eos wi m2 sz start temperature h = Inr (s2, h2)"
    and "map snd (fed s2) = map snd (fed s1)"
  shows "generate_soft ops model vocab_size eos wi rm m1 sz start temperature g
           = Inr (decode rm (texts_to_sequences wi start
                              @ takeWhile (\<lambda>t. t \<noteq> eos) (map snd (fed s1))), g1)
     \<and> generate_soft ops model vocab_size eos wi rm m2 sz start temperature h
           = Inr (decode rm (texts_to_sequences wi start
                              @ takeWhile (\<lambda>t. t \<noteq> eos) (map snd (fed s1))), h2)
     \<and> replay (soft_pick ops model vocab_size m1 temperature) g (fed s1) g1
     \<and> replay (soft_pick ops model vocab_size m2 temperature) h (fed s2) h2"
proof -
  have str: "generate_soft ops model vocab_size eos wi rm m sz start temperature a
           = Inr (decode rm (texts_to_sequences wi start
                              @ takeWhile (\<lambda>t. t \<noteq> eos) (map snd (fed s))), a')
         \<and> replay (soft_pick ops model vocab_size m temperature) a (fed s) a'"
    if run: "generate_soft_run ops model vocab_size eos wi m sz start temperature a = Inr (s, a')"
    for m s and a a' :: 'x
  proof -
    obtain gs ends where f:
      "store s (chars_ref s) = texts_to_sequences wi start @ gs"
      "eos \<notin> set gs" "ends = [] \<or> ends = [eos]" "map snd (fed s) = gs @ ends"
      "replay (soft_pick ops model vocab_size m temperature) a (fed s) a'"
      using generate_soft_run_facts [OF run] by blast
    have "takeWhile (\<lambda>t. t \<noteq> eos) (map snd (fed s)) = gs"
      unfolding f(4) by (rule takeWhile_generated [OF f(2,3)])
    then show ?thesis
      using run f(1,5) by (simp add: generate_soft_def)
  qed
  show ?thesis
    using str [OF assms(1)] str [OF assms(2)] assms(3) by simp
qed

theorem generate_soft_string_from_draws_witness:
  "\<exists>s1 s2.
     generate_soft_run exact_ops demo_model 4 3 [(''a'', 1), (''b'', 2), (''<eos>'', 3)]
          inversion_sampler 5 ''a'' 1 [1/2, 1/5, 9/10] = Inr (s1, [])
     \<and> generate_soft_run exact_ops demo_model 4 3 [(''a'', 1), (''b'', 2), (''<eos>'', 3)]
          inversion_sampler 5 ''a'' 1 [9/20, 3/20, 19/20, 1/3] = Inr (s2, [1/3])
     \<and> map snd (fed s1) = [2, 1, 3] \<and> map snd (fed s2) = [2, 1, 3]
     \<and> generate_soft exact_ops demo_model 4 3 [(''a'', 1), (''b'', 2), (''<eos>'', 3)]
          [(1, ''a''), (2, ''b''), (3, ''<eos>'')] inversion_sampler 5 ''a'' 1 [1/2, 1/5, 9/10]
        = Inr (''aba'', [])
     \<and> generate_soft exact_ops demo_model 4 3 [(''a'', 1), (''b'', 2), (''<eos>'', 3)]
          [(1, ''a''), (2, ''b''), (3, ''<eos>'')] inversion_sampler 5 ''a'' 1
          [9/20, 3/20, 19/20, 1/3]
        = Inr (''aba'', [1/3])"
proof -
  define S where "S = \<lparr>store = (\<lambda>_. [])(1 := [1, 2, 2], 0 := [1, 2, 1], 2 := [1, 2, 2, 1]),
          fresh = 3, inp_ref = 2, chars_ref = 0,
          fed = [([1], 2), ([1, 2, 2], 1), ([1, 2, 2, 1], 3)]\<rparr>"
  have r1: "generate_soft_run exact_ops demo_model 4 3 [(''a'', 1), (''b'', 2), (''<eos>'', 3)]
              inversion_sampler 5 ''a'' 1 [1/2, 1/5, 9/10] = Inr (S, [])"
    unfolding S_def by (rule demo_generate_soft_run)
  have r2: "generate_soft_run exact_ops demo_model 4 3 [(''a'', 1), (''b'', 2), (''<eos>'', 3)]
              inversion_sampler 5 ''a'' 1 [9/20, 3/20, 19/20, 1/3] = Inr (S, [1/3])"
    unfolding S_def
    by (simp add: generate_soft_run_def texts_to_sequences_def init_frame_def eval_nat_numeral
        demo_last_output argmax_def advance_def list_append_def list_concat_def Let_def
        inversion_sampler_def)
  have d: "map snd (fed S) = [2, 1, 3]"
    by (simp add: S_def)
  have tw: "decode [(1, ''a''), (2, ''b''), (3, ''<eos>'')]
              (texts_to_sequences [(''a'', 1), (''b'', 2), (''<eos>'', 3)] ''a''
               @ takeWhile (\<lambda>t. t \<noteq> 3) (map snd (fed S))) = ''aba''"
    by (simp add: d texts_to_sequences_def decode_def)
  note t = generate_soft_string_from_draws [OF r1 r2 refl,
      of "[(1, ''a''), (2, ''b''), (3, ''<eos>'')]"]
  have g1: "generate_soft exact_ops demo_model 4 3 [(''a'', 1), (''b'', 2), (''<eos>'', 3)]
          [(1, ''a''), (2, ''b''), (3, ''<eos>'')] inversion_sampler 5 ''a'' 1 [1/2, 1/5, 9/10]
        = Inr (''aba'', [])"
    using t tw by simp
  have g2: "generate_soft exact_ops demo_model 4 3 [(''a'', 1), (''b'', 2), (''<eos>'', 3)]
          [(1, ''a''), (2, ''b''), (3, ''<eos>'')] inversion_sampler 5 ''a'' 1
          [9/20, 3/20, 19/20, 1/3]
        = Inr (''aba'', [1/3])"
    using t tw by simp
  show ?thesis
    by (intro exI [of _ S] conjI r1 r2 d g1 g2)
qed

text \<open>
  C3 (as stated) fails: with the same model, size, seed and temperature, a run that
  starts from a generator state whose next variate is \<open>1/5\<close> returns \<open>aa\<close>, and a
  run that starts from one whose next variate is \<open>1/2\<close> returns \<open>ab\<close>; and with
  the same arguments and generator state, the global \<open>eos_token\<close> set to 2 instead of
  3 gives \<open>a\<close> instead of \<open>ab\<close>.
\<close>

theorem generate_soft_not_pure_counterexample:
  "generate_soft exact_ops demo_model 4 3 [(''a'', 1), (''b'', 2), (''<eos>'', 3)]
      [(1, ''a''), (2, ''b''), (3, ''<eos>'')] inversion_sampler 1 ''a'' 1 [1/5]
     = Inr (''aa'', [])
   \<and> generate_soft exact_ops demo_model 4 3 [(''a'', 1), (''b'', 2), (''<eos>'', 3)]
      [(1, ''a''), (2, ''b''), (3, ''<eos>'')] inversion_sampler 1 ''a'' 1 [1/2]
     = Inr (''ab'', [])
   \<and> generate_soft exact_ops demo_model 4 2 [(''a'', 1), (''b'', 2), (''<eos>'', 3)]
      [(1, ''a''), (2, ''b''), (3, ''<eos>'')] inversion_sampler 1 ''a'' 1 [1/2]
     = Inr (''a'', [])"
  by (simp add: generate_soft_def generate_soft_run_def texts_to_sequences_def init_frame_def
        demo_last_output argmax_def advance_def list_append_def list_concat_def Let_def
        inversion_sampler_def decode_def)

end
